theory Spec2Isabelle
  imports Main "HOL-Library.Word"
begin

unbundle bit_operations_syntax

section \<open>The Windows console, as the light renderer sees it\<close>

text \<open>
  \<^verbatim>\<open>src/tui/light_windows.go\<close> talks to the console through
  \<^verbatim>\<open>golang.org/x/sys/windows\<close>. That package is not part of the repository, so the
  console is modelled here as explicit state: two buffers (the screen buffer and the input
  buffer), each carrying a 32-bit mode, and the handles through which the code reaches them.
\<close>

type_synonym u32 = "32 word"
type_synonym u64 = "64 word"
type_synonym byte = "8 word"
type_synonym int16 = "16 word"

text \<open>The flag values of the Windows console API that the source names.\<close>

definition ENABLE_PROCESSED_INPUT :: u32 where
  "ENABLE_PROCESSED_INPUT = 0x1"

definition ENABLE_EXTENDED_FLAGS :: u32 where
  "ENABLE_EXTENDED_FLAGS = 0x80"

definition ENABLE_VIRTUAL_TERMINAL_INPUT :: u32 where
  "ENABLE_VIRTUAL_TERMINAL_INPUT = 0x200"

definition ENABLE_PROCESSED_OUTPUT :: u32 where
  "ENABLE_PROCESSED_OUTPUT = 0x1"

definition ENABLE_VIRTUAL_TERMINAL_PROCESSING :: u32 where
  "ENABLE_VIRTUAL_TERMINAL_PROCESSING = 0x4"

definition DISABLE_NEWLINE_AUTO_RETURN :: u32 where
  "DISABLE_NEWLINE_AUTO_RETURN = 0x8"

datatype error = ERROR_INVALID_HANDLE | ERROR_INVALID_PARAMETER

text \<open>
  A handle is the standard error handle, a handle of the console screen buffer obtained by
  opening \<^verbatim>\<open>CONOUT$\<close>, a handle of the console input buffer obtained by opening
  \<^verbatim>\<open>CONIN$\<close>, or a value that names no open object (what \<^verbatim>\<open>syscall.Open\<close> returns
  beside its error, and the zero value of an unset field).
\<close>

datatype handle = InvalidHandle | Stderr | CONOUT | CONIN

datatype buffer = Screen | Input

text \<open>
  A console buffer holds its mode, the set of flags this console version knows, and how it
  treats a request that carries an unknown flag: a strict console rejects the request and
  keeps its mode, a lenient one reports success and drops the unknown flags. Both
  behaviours are what \<^verbatim>\<open>IsLightRendererSupported\<close> is written against (it looks at the
  result of the call and re-reads the mode).
\<close>

record device =
  mode :: u32
  supported :: u32
  strict :: bool

record Coord =
  X :: int16
  Y :: int16

record SmallRect =
  Left :: int16
  Top :: int16
  Right :: int16
  Bottom :: int16

record ConsoleScreenBufferInfo =
  CursorPosition :: Coord
  Window :: SmallRect

record os_state =
  screen :: device
  input :: device
  stderrIsConsole :: bool
  conoutOpens :: bool
  coninOpens :: bool
  screenBufferInfo :: "ConsoleScreenBufferInfo option"
  environ :: "string \<rightharpoonup> string"

definition buffer_of :: "os_state \<Rightarrow> handle \<Rightarrow> buffer option" where
  "buffer_of os h =
     (case h of
        InvalidHandle \<Rightarrow> None
      | Stderr \<Rightarrow> (if stderrIsConsole os then Some Screen else None)
      | CONOUT \<Rightarrow> Some Screen
      | CONIN \<Rightarrow> Some Input)"

definition device_of :: "os_state \<Rightarrow> buffer \<Rightarrow> device" where
  "device_of os b = (case b of Screen \<Rightarrow> screen os | Input \<Rightarrow> input os)"

definition put_device :: "buffer \<Rightarrow> device \<Rightarrow> os_state \<Rightarrow> os_state" where
  "put_device b d os = (case b of Screen \<Rightarrow> os\<lparr>screen := d\<rparr> | Input \<Rightarrow> os\<lparr>input := d\<rparr>)"

text \<open>\<^verbatim>\<open>syscall.Open\<close>; the source discards its error and keeps the handle.\<close>

definition Open :: "os_state \<Rightarrow> string \<Rightarrow> handle" where
  "Open os path =
     (if path = ''CONOUT$'' \<and> conoutOpens os then CONOUT
      else if path = ''CONIN$'' \<and> coninOpens os then CONIN
      else InvalidHandle)"

definition GetConsoleMode :: "os_state \<Rightarrow> handle \<Rightarrow> error + u32" where
  "GetConsoleMode os h =
     (case buffer_of os h of
        None \<Rightarrow> Inl ERROR_INVALID_HANDLE
      | Some b \<Rightarrow> Inr (mode (device_of os b)))"

definition set_device :: "u32 \<Rightarrow> device \<Rightarrow> error option \<times> device" where
  "set_device m d =
     (if m AND NOT (supported d) = 0 then (None, d\<lparr>mode := m\<rparr>)
      else if strict d then (Some ERROR_INVALID_PARAMETER, d)
      else (None, d\<lparr>mode := m AND supported d\<rparr>))"

definition SetConsoleMode :: "handle \<Rightarrow> u32 \<Rightarrow> os_state \<Rightarrow> error option \<times> os_state" where
  "SetConsoleMode h m os =
     (case buffer_of os h of
        None \<Rightarrow> (Some ERROR_INVALID_HANDLE, os)
      | Some b \<Rightarrow>
          (case set_device m (device_of os b) of
             (e, d) \<Rightarrow> (e, put_device b d os)))"

definition GetConsoleScreenBufferInfo ::
  "os_state \<Rightarrow> handle \<Rightarrow> error + ConsoleScreenBufferInfo" where
  "GetConsoleScreenBufferInfo os h =
     (if buffer_of os h = Some Screen
      then (case screenBufferInfo os of
              None \<Rightarrow> Inl ERROR_INVALID_PARAMETER
            | Some bi \<Rightarrow> Inr bi)
      else Inl ERROR_INVALID_HANDLE)"

text \<open>\<^verbatim>\<open>os.Getenv\<close>: the empty string for a variable that is not set.\<close>

definition Getenv :: "os_state \<Rightarrow> string \<Rightarrow> string" where
  "Getenv os k = (case environ os k of None \<Rightarrow> [] | Some v \<Rightarrow> v)"

text \<open>
  A console is well formed when each buffer's mode holds only flags the console knows:
  every mode a console ever stores went through \<open>set_device\<close>, which keeps this.
\<close>

definition wf_device :: "device \<Rightarrow> bool" where
  "wf_device d = (mode d AND NOT (supported d) = 0)"

definition wf_os :: "os_state \<Rightarrow> bool" where
  "wf_os os = (wf_device (screen os) \<and> wf_device (input os))"

section \<open>The renderer\<close>

definition timeoutInterval :: nat where
  "timeoutInterval = 10"

definition consoleFlagsInput :: u32 where
  "consoleFlagsInput =
     ENABLE_VIRTUAL_TERMINAL_INPUT OR ENABLE_PROCESSED_INPUT OR ENABLE_EXTENDED_FLAGS"

definition consoleFlagsOutput :: u32 where
  "consoleFlagsOutput =
     ENABLE_VIRTUAL_TERMINAL_PROCESSING OR ENABLE_PROCESSED_OUTPUT OR DISABLE_NEWLINE_AUTO_RETURN"

datatype ColorTheme = Default16 | Dark256

text \<open>
  Modelled from the spec: the declaration of \<^verbatim>\<open>TermSize\<close> is not in the source file;
  the spec gives its fields as lines, columns, x-offset and y-offset, and
  \<^verbatim>\<open>updateTerminalSize\<close> reads \<^verbatim>\<open>Lines\<close> and \<^verbatim>\<open>Columns\<close>.
\<close>

record TermSize =
  Lines :: int
  Columns :: int
  XOffset :: int
  YOffset :: int

text \<open>
  The fields of \<^verbatim>\<open>LightRenderer\<close> that this file uses. \<open>ttyinChannel\<close> is a reference
  into the store of channels (\<open>None\<close> is Go's nil channel). \<open>mutex\<close> is \<open>None\<close> when
  unlocked and \<open>Some i\<close> while reader goroutine \<open>i\<close> holds it.
\<close>

record LightRenderer =
  origStateOutput :: u32
  origStateInput :: u32
  outHandle :: handle
  inHandle :: handle
  ttyinChannel :: "nat option"
  mutex :: "nat option"
  width :: int
  height :: int
  maxHeightFunc :: "int \<Rightarrow> int"

text \<open>
  \<^verbatim>\<open>getEnv\<close>, \<^verbatim>\<open>defaultWidth\<close> and \<^verbatim>\<open>defaultHeight\<close> are declared elsewhere in the
  package; \<^verbatim>\<open>Size\<close> takes them as parameters.
\<close>

record externals =
  getEnv :: "string \<Rightarrow> int \<Rightarrow> int"
  defaultWidth :: int
  defaultHeight :: int

text \<open>
  The goroutine started by \<^verbatim>\<open>setupTerminal\<close>: the generation it captured and where it
  stands in its loop.
\<close>

datatype pc =
    Reading
  | Waiting byte
  | Sending byte
  | Reapplying
  | Exited

record reader =
  current :: u64
  at :: pc

text \<open>
  The whole state: the console, the renderer, the package-level \<^verbatim>\<open>counter\<close>, the store
  of channels (a channel is the list of bytes buffered in it, oldest first; a reference is
  an index into the store) and the reader goroutines, in the order they were started.
\<close>

record world =
  os :: os_state
  renderer :: LightRenderer
  counter :: u64
  channels :: "byte list list"
  goroutines :: "reader list"

definition capacity :: nat where
  "capacity = 1024"

subsection \<open>Capability probe and theme\<close>

definition IsLightRendererSupported :: "os_state \<Rightarrow> bool \<times> os_state" where
  "IsLightRendererSupported os0 =
     (case GetConsoleMode os0 Stderr of
        Inl _ \<Rightarrow> (False, os0)
      | Inr oldState \<Rightarrow>
          (case SetConsoleMode Stderr (oldState OR ENABLE_VIRTUAL_TERMINAL_PROCESSING) os0 of
             (e, os1) \<Rightarrow>
               (let canSetVt100 = (e = None) in
                case GetConsoleMode os1 Stderr of
                  Inl _ \<Rightarrow> (False, os1)
                | Inr checkState \<Rightarrow>
                    if checkState AND ENABLE_VIRTUAL_TERMINAL_PROCESSING
                         \<noteq> ENABLE_VIRTUAL_TERMINAL_PROCESSING
                    then (False, os1)
                    else (canSetVt100, snd (SetConsoleMode Stderr oldState os1)))))"

definition DefaultTheme :: "os_state \<Rightarrow> ColorTheme \<times> os_state" where
  "DefaultTheme os0 =
     (case IsLightRendererSupported os0 of
        (supp, os1) \<Rightarrow>
          (if \<not> supp \<or> Getenv os1 ''ConEmuPID'' \<noteq> [] \<or> Getenv os1 ''TCELL_TRUECOLOR'' = ''disable''
           then (Default16, os1)
           else (Dark256, os1)))"

subsection \<open>Mode control\<close>

definition setupTerminal :: "world \<Rightarrow> world" where
  "setupTerminal w =
     (let r = renderer w;
          os1 = snd (SetConsoleMode (outHandle r) consoleFlagsOutput (os w));
          os2 = snd (SetConsoleMode (inHandle r) consoleFlagsInput os1)
      in w\<lparr>os := os2,
            goroutines := goroutines w @ [\<lparr>current = counter w, at = Reading\<rparr>]\<rparr>)"

definition initPlatform :: "world \<Rightarrow> error option \<times> world" where
  "initPlatform w =
     (let outH = Open (os w) ''CONOUT$'' in
      case GetConsoleMode (os w) outH of
        Inl err \<Rightarrow> (Some err, w)
      | Inr outMode \<Rightarrow>
          (let w1 = w\<lparr>renderer := (renderer w)\<lparr>origStateOutput := outMode, outHandle := outH\<rparr>\<rparr>;
               inH = Open (os w1) ''CONIN$''
           in case GetConsoleMode (os w1) inH of
                Inl err \<Rightarrow> (Some err, w1)
              | Inr inMode \<Rightarrow>
                  (let w2 = w1\<lparr>renderer := (renderer w1)
                                  \<lparr>origStateInput := inMode, inHandle := inH,
                                   ttyinChannel := Some (length (channels w1))\<rparr>,
                                channels := channels w1 @ [[]]\<rparr>
                   in (None, setupTerminal w2))))"

definition closePlatform :: "world \<Rightarrow> world" where
  "closePlatform w =
     (let r = renderer w;
          os1 = snd (SetConsoleMode (outHandle r) (origStateOutput r) (os w));
          os2 = snd (SetConsoleMode (inHandle r) (origStateInput r) os1)
      in w\<lparr>os := os2\<rparr>)"

text \<open>
  \<^verbatim>\<open>restoreTerminal\<close> runs under the mutex: while a reader holds it the call does not
  return (\<open>None\<close>).
\<close>

definition restoreTerminal :: "world \<Rightarrow> world option" where
  "restoreTerminal w =
     (let r = renderer w in
      if mutex r \<noteq> None then None
      else
        (let os1 = snd (SetConsoleMode (inHandle r)
                          (origStateInput r OR ENABLE_VIRTUAL_TERMINAL_INPUT) (os w));
             os2 = snd (SetConsoleMode (outHandle r) (origStateOutput r) os1)
         in Some (w\<lparr>counter := counter w + 1, os := os2\<rparr>)))"

subsection \<open>Geometry\<close>

definition Size :: "externals \<Rightarrow> world \<Rightarrow> TermSize" where
  "Size ext w =
     (let r = renderer w in
      case GetConsoleScreenBufferInfo (os w) (outHandle r) of
        Inl _ \<Rightarrow>
          (let wd = getEnv ext ''COLUMNS'' (defaultWidth ext);
               h = maxHeightFunc r (getEnv ext ''LINES'' (defaultHeight ext))
           in \<lparr>Lines = h, Columns = wd, XOffset = 0, YOffset = 0\<rparr>)
      | Inr bufferInfo \<Rightarrow>
          (let wd = sint (Right (Window bufferInfo) - Left (Window bufferInfo));
               h = maxHeightFunc r (sint (Bottom (Window bufferInfo) - Top (Window bufferInfo)))
           in \<lparr>Lines = h, Columns = wd, XOffset = 0, YOffset = 0\<rparr>))"

definition updateTerminalSize :: "externals \<Rightarrow> world \<Rightarrow> world" where
  "updateTerminalSize ext w =
     (let size = Size ext w
      in w\<lparr>renderer := (renderer w)\<lparr>width := Columns size, height := Lines size\<rparr>\<rparr>)"

definition findOffset :: "world \<Rightarrow> int \<times> int" where
  "findOffset w =
     (case GetConsoleScreenBufferInfo (os w) (outHandle (renderer w)) of
        Inl _ \<Rightarrow> (- 1, - 1)
      | Inr bufferInfo \<Rightarrow>
          (sint (Y (CursorPosition bufferInfo)), sint (X (CursorPosition bufferInfo))))"

subsection \<open>The input queue\<close>

text \<open>
  The bytes buffered in the channel that \<open>ttyinChannel\<close> refers to; a nil channel never
  holds any.
\<close>

definition queue :: "world \<Rightarrow> byte list" where
  "queue w =
     (case ttyinChannel (renderer w) of
        None \<Rightarrow> []
      | Some c \<Rightarrow> (if c < length (channels w) then channels w ! c else []))"

text \<open>
  \<^verbatim>\<open>getch\<close>. A receive takes the oldest byte. With \<open>nonblock\<close> the \<^verbatim>\<open>select\<close> falls to its
  timer branch when the channel has stayed empty for \<open>timeoutInterval\<close> milliseconds;
  without it an empty channel keeps the call waiting (\<open>None\<close>: no return in this state).
\<close>

definition getch :: "bool \<Rightarrow> world \<Rightarrow> ((int \<times> bool) \<times> world) option" where
  "getch nonblock w =
     (case ttyinChannel (renderer w) of
        None \<Rightarrow> (if nonblock then Some ((0, False), w) else None)
      | Some c \<Rightarrow>
          (if c < length (channels w)
           then (case channels w ! c of
                   [] \<Rightarrow> (if nonblock then Some ((0, False), w) else None)
                 | bc # rest \<Rightarrow>
                     Some ((uint bc, True), w\<lparr>channels := (channels w)[c := rest]\<rparr>))
           else (if nonblock then Some ((0, False), w) else None)))"

subsection \<open>The reader goroutine\<close>

text \<open>
  The loop body of the goroutine of \<^verbatim>\<open>setupTerminal\<close>, one definition per point where
  another goroutine may run in between. Each takes the index of the goroutine and is
  \<open>None\<close> where that goroutine cannot take the step in this state.

  \<open>read_ok\<close>: \<^verbatim>\<open>util.Read\<close> returned without error and left \<open>b\<close> in the buffer.
  \<open>read_err\<close>: it returned an error; the loop goes round.
\<close>

definition read_ok :: "nat \<Rightarrow> byte \<Rightarrow> world \<Rightarrow> world option" where
  "read_ok i b w =
     (let gs = goroutines w in
      if i < length gs \<and> at (gs ! i) = Reading
      then Some (w\<lparr>goroutines := gs[i := (gs ! i)\<lparr>at := Waiting b\<rparr>]\<rparr>)
      else None)"

definition read_err :: "nat \<Rightarrow> world \<Rightarrow> world option" where
  "read_err i w =
     (let gs = goroutines w in
      if i < length gs \<and> at (gs ! i) = Reading then Some w else None)"

text \<open>
  \<open>acquire\<close>: \<^verbatim>\<open>r.mutex.Lock()\<close> succeeds and the generation is compared. On a mismatch
  the goroutine unlocks and leaves the loop; otherwise it goes on to the send, holding the
  mutex.
\<close>

definition acquire :: "nat \<Rightarrow> world \<Rightarrow> world option" where
  "acquire i w =
     (let gs = goroutines w in
      if i < length gs
      then (case at (gs ! i) of
              Waiting b \<Rightarrow>
                (if mutex (renderer w) \<noteq> None then None
                 else if current (gs ! i) \<noteq> counter w
                 then Some (w\<lparr>goroutines := gs[i := (gs ! i)\<lparr>at := Exited\<rparr>]\<rparr>)
                 else Some (w\<lparr>renderer := (renderer w)\<lparr>mutex := Some i\<rparr>,
                              goroutines := gs[i := (gs ! i)\<lparr>at := Sending b\<rparr>]\<rparr>))
            | _ \<Rightarrow> None)
      else None)"

text \<open>
  \<open>send\<close>: \<^verbatim>\<open>r.ttyinChannel <- b[0]\<close>. The send waits while the channel is full, and for
  ever on a nil channel. It yields the byte it has appended.
\<close>

definition send :: "nat \<Rightarrow> world \<Rightarrow> (byte \<times> world) option" where
  "send i w =
     (let gs = goroutines w in
      if i < length gs
      then (case at (gs ! i) of
              Sending b \<Rightarrow>
                (case ttyinChannel (renderer w) of
                   None \<Rightarrow> None
                 | Some c \<Rightarrow>
                     (if c < length (channels w) \<and> length (channels w ! c) < capacity
                      then Some (b, w\<lparr>channels := (channels w)[c := channels w ! c @ [b]],
                                      goroutines := gs[i := (gs ! i)\<lparr>at := Reapplying\<rparr>]\<rparr>)
                      else None))
            | _ \<Rightarrow> None)
      else None)"

text \<open>\<open>reapply\<close>: the input mode is set again and the mutex released.\<close>

definition reapply :: "nat \<Rightarrow> world \<Rightarrow> world option" where
  "reapply i w =
     (let gs = goroutines w in
      if i < length gs \<and> at (gs ! i) = Reapplying
      then Some (w\<lparr>os := snd (SetConsoleMode (inHandle (renderer w)) consoleFlagsInput (os w)),
                   renderer := (renderer w)\<lparr>mutex := None\<rparr>,
                   goroutines := gs[i := (gs ! i)\<lparr>at := Reading\<rparr>]\<rparr>)
      else None)"

subsection \<open>Executions\<close>

text \<open>
  An execution is a sequence of events: calls made by the main goroutine, and steps of the
  reader goroutines interleaved with them. Each event yields what it makes observable.
\<close>

datatype event =
    InitPlatform
  | SetupTerminal
  | RestoreTerminal
  | ClosePlatform
  | Getch bool
  | ReadOk nat byte
  | ReadErr nat
  | Acquire nat
  | Send nat
  | Reapply nat

datatype obs = Silent | Failed error | Got int bool | Pushed byte

fun actor :: "event \<Rightarrow> nat option" where
  "actor (ReadOk i b) = Some i"
| "actor (ReadErr i) = Some i"
| "actor (Acquire i) = Some i"
| "actor (Send i) = Some i"
| "actor (Reapply i) = Some i"
| "actor _ = None"

definition silently :: "world option \<Rightarrow> (obs \<times> world) option" where
  "silently x = (case x of None \<Rightarrow> None | Some w \<Rightarrow> Some (Silent, w))"

fun exec :: "event \<Rightarrow> world \<Rightarrow> (obs \<times> world) option" where
  "exec InitPlatform w =
     (case initPlatform w of
        (None, w') \<Rightarrow> Some (Silent, w')
      | (Some err, w') \<Rightarrow> Some (Failed err, w'))"
| "exec SetupTerminal w = Some (Silent, setupTerminal w)"
| "exec RestoreTerminal w = silently (restoreTerminal w)"
| "exec ClosePlatform w = Some (Silent, closePlatform w)"
| "exec (Getch nonblock) w =
     (case getch nonblock w of
        None \<Rightarrow> None
      | Some ((v, ok), w') \<Rightarrow> Some (Got v ok, w'))"
| "exec (ReadOk i b) w = silently (read_ok i b w)"
| "exec (ReadErr i) w = silently (read_err i w)"
| "exec (Acquire i) w = silently (acquire i w)"
| "exec (Send i) w =
     (case send i w of
        None \<Rightarrow> None
      | Some (b, w') \<Rightarrow> Some (Pushed b, w'))"
| "exec (Reapply i) w = silently (reapply i w)"

fun run :: "event list \<Rightarrow> world \<Rightarrow> (obs list \<times> world) option" where
  "run [] w = Some ([], w)"
| "run (e # es) w =
     (case exec e w of
        None \<Rightarrow> None
      | Some (ob, w') \<Rightarrow>
          (case run es w' of
             None \<Rightarrow> None
           | Some (obs, w'') \<Rightarrow> Some (ob # obs, w'')))"

text \<open>The bytes appended to the channel and the bytes handed out by \<^verbatim>\<open>getch\<close>, in order.\<close>

fun pushed :: "obs list \<Rightarrow> int list" where
  "pushed [] = []"
| "pushed (Pushed b # obs) = uint b # pushed obs"
| "pushed (_ # obs) = pushed obs"

fun received :: "obs list \<Rightarrow> int list" where
  "received [] = []"
| "received (Got v True # obs) = v # received obs"
| "received (_ # obs) = received obs"

text \<open>One pass of a reader's loop that delivers the byte \<open>b\<close>.\<close>

definition deliver :: "nat \<Rightarrow> byte \<Rightarrow> event list" where
  "deliver i b = [ReadOk i b, Acquire i, Send i, Reapply i]"

subsection \<open>A concrete console\<close>

text \<open>
  A console that knows the virtual-terminal flags, in the modes a fresh console window
  has, with no environment override; and a program that has not touched it yet.
\<close>

definition console0 :: os_state where
  "console0 =
     \<lparr>screen = \<lparr>mode = 0x3, supported = 0x1F, strict = True\<rparr>,
      input = \<lparr>mode = 0x1F7, supported = 0x3FF, strict = True\<rparr>,
      stderrIsConsole = True,
      conoutOpens = True,
      coninOpens = True,
      screenBufferInfo =
        Some \<lparr>CursorPosition = \<lparr>X = 4, Y = 7\<rparr>,
              Window = \<lparr>Left = 0, Top = 0, Right = 119, Bottom = 29\<rparr>\<rparr>,
      environ = Map.empty\<rparr>"

definition renderer0 :: LightRenderer where
  "renderer0 =
     \<lparr>origStateOutput = 0, origStateInput = 0,
      outHandle = InvalidHandle, inHandle = InvalidHandle,
      ttyinChannel = None, mutex = None,
      width = 0, height = 0,
      maxHeightFunc = (\<lambda>h. h)\<rparr>"

definition world0 :: world where
  "world0 =
     \<lparr>os = console0, renderer = renderer0, counter = 0, channels = [], goroutines = []\<rparr>"

definition console_legacy :: os_state where
  "console_legacy =
     console0\<lparr>screen := \<lparr>mode = 0x3, supported = 0x3, strict = False\<rparr>,
              input := \<lparr>mode = 0x1F7, supported = 0x1FF, strict = True\<rparr>\<rparr>"

definition ext0 :: externals where
  "ext0 = \<lparr>getEnv = (\<lambda>name dflt. dflt), defaultWidth = 80, defaultHeight = 24\<rparr>"

subsection \<open>Invariants of executions\<close>

text \<open>Whether a reader at this point of its loop holds the mutex.\<close>

fun holds :: "pc \<Rightarrow> bool" where
  "holds (Sending b) = True"
| "holds Reapplying = True"
| "holds _ = False"

text \<open>Only the goroutine named by the mutex is inside the critical section.\<close>

definition lock_inv :: "world \<Rightarrow> bool" where
  "lock_inv w =
     (\<forall>i < length (goroutines w).
        holds (at (goroutines w ! i)) \<longrightarrow> mutex (renderer w) = Some i)"

text \<open>
  After \<open>n\<close> calls of \<^verbatim>\<open>restoreTerminal\<close> the counter stands \<open>n\<close> above its first
  value \<open>c0\<close>, and every reader captured one of the values it has had.
\<close>

definition gen_inv :: "u64 \<Rightarrow> nat \<Rightarrow> world \<Rightarrow> bool" where
  "gen_inv c0 n w =
     (counter w = c0 + of_nat n \<and>
      (\<forall>i < length (goroutines w). \<exists>k \<le> n. current (goroutines w ! i) = c0 + of_nat k))"

text \<open>
  Reader \<open>i\<close> captured generation \<open>g\<close>, which is no longer the counter's value, and it is
  outside the critical section.
\<close>

definition stale :: "nat \<Rightarrow> u64 \<Rightarrow> world \<Rightarrow> bool" where
  "stale i g w =
     (i < length (goroutines w) \<and> current (goroutines w ! i) = g \<and>
      \<not> holds (at (goroutines w ! i)) \<and> g \<noteq> counter w)"

text \<open>
  What holds of the renderer and the console from a successful \<^verbatim>\<open>initPlatform\<close> on:
  \<open>c\<close> is the console as \<^verbatim>\<open>initPlatform\<close> found it. The last part is about a strict
  console that does not know \<^verbatim>\<open>ENABLE_VIRTUAL_TERMINAL_INPUT\<close>: it rejects every
  input mode the program asks for except the original one.
\<close>

definition mode_inv :: "os_state \<Rightarrow> world \<Rightarrow> bool" where
  "mode_inv c w =
     (outHandle (renderer w) = CONOUT \<and> inHandle (renderer w) = CONIN \<and>
      origStateOutput (renderer w) = mode (screen c) \<and>
      origStateInput (renderer w) = mode (input c) \<and>
      supported (screen (os w)) = supported (screen c) \<and>
      supported (input (os w)) = supported (input c) \<and>
      strict (input (os w)) = strict (input c) \<and>
      (strict (input c) \<and> ENABLE_VIRTUAL_TERMINAL_INPUT AND supported (input c) = 0
         \<longrightarrow> mode (input (os w)) = mode (input c)))"

section \<open>Evaluation\<close>

text \<open>The definitions to unfold when an execution is evaluated on a concrete world.\<close>

lemmas eval_defs = world0_def console0_def console_legacy_def renderer0_def initPlatform_def
  setupTerminal_def Let_def Open_def GetConsoleMode_def SetConsoleMode_def buffer_of_def
  device_of_def put_device_def set_device_def consoleFlagsOutput_def consoleFlagsInput_def
  ENABLE_VIRTUAL_TERMINAL_PROCESSING_def ENABLE_PROCESSED_OUTPUT_def
  DISABLE_NEWLINE_AUTO_RETURN_def ENABLE_VIRTUAL_TERMINAL_INPUT_def ENABLE_PROCESSED_INPUT_def
  ENABLE_EXTENDED_FLAGS_def closePlatform_def restoreTerminal_def read_ok_def read_err_def
  acquire_def send_def reapply_def getch_def silently_def deliver_def capacity_def queue_def
  wf_os_def wf_device_def

section \<open>Flags and masks\<close>

lemma single_bit_and:
  "(2 ^ n :: 'a::len word) AND s = 0 \<or> (2 ^ n :: 'a word) AND s = 2 ^ n"
  by (cases "bit s n") (auto intro!: bit_eqI simp: bit_simps)

lemma subset_or_iff:
  "((a OR f) AND NOT s = 0) = ((a :: 'a::len word) AND NOT s = 0 \<and> f AND NOT s = 0)"
  by (auto simp: bit_eq_iff bit_simps)

lemma flag_outside:
  fixes f :: "'a::len word"
  assumes "f = 2 ^ n" and "f AND NOT s \<noteq> 0"
  shows "f AND s = 0"
proof -
  from single_bit_and [of n s] assms(1) have "f AND s = 0 \<or> f AND s = f" by simp
  moreover have "f AND s = f \<Longrightarrow> f AND NOT s = 0"
    by (auto simp: bit_eq_iff bit_simps)
  ultimately show ?thesis using assms(2) by blast
qed

lemma masked_or_outside:
  fixes a :: "'a::len word"
  assumes "a AND NOT s = 0" and "f AND s = 0"
  shows "(a OR f) AND s = a"
  using assms by (auto simp: bit_eq_iff bit_simps)

lemma flag_not_in:
  fixes a :: "'a::len word"
  assumes "a AND NOT s = 0" and "f AND s = 0" and "f \<noteq> 0"
  shows "a AND f \<noteq> f"
proof
  assume "a AND f = f"
  then have "f AND NOT s = 0" using assms(1) by (auto simp: bit_eq_iff bit_simps)
  moreover have "f AND NOT s = f" using assms(2) by (auto simp: bit_eq_iff bit_simps)
  ultimately show False using assms(3) by simp
qed

text \<open>
  Asking a well-formed device for its mode plus one flag: either the console knows the
  flag and stores the sum, or it does not, and then the device is left as it was and its
  mode does not hold the flag.
\<close>

lemma set_device_add_flag:
  assumes wf: "wf_device d" and f: "f = 2 ^ n" "f \<noteq> 0"
  shows "(f AND NOT (supported d) = 0 \<and>
            set_device (mode d OR f) d = (None, d\<lparr>mode := mode d OR f\<rparr>))
       \<or> (f AND supported d = 0 \<and> snd (set_device (mode d OR f) d) = d \<and>
            mode d AND f \<noteq> f)"
proof (cases "f AND NOT (supported d) = 0")
  case True
  with wf have "(mode d OR f) AND NOT (supported d) = 0"
    by (simp add: wf_device_def subset_or_iff)
  then show ?thesis using True by (simp add: set_device_def)
next
  case False
  with f(1) have out: "f AND supported d = 0" by (rule flag_outside)
  from wf have m: "mode d AND NOT (supported d) = 0" by (simp add: wf_device_def)
  have "(mode d OR f) AND NOT (supported d) \<noteq> 0"
    using False by (simp add: subset_or_iff)
  moreover have "(mode d OR f) AND supported d = mode d"
    using m out by (rule masked_or_outside)
  ultimately have "snd (set_device (mode d OR f) d) = d"
    by (simp add: set_device_def)
  moreover have "mode d AND f \<noteq> f" using m out f(2) by (rule flag_not_in)
  ultimately show ?thesis using out by simp
qed

lemma vt_processing_bit: "ENABLE_VIRTUAL_TERMINAL_PROCESSING = 2 ^ 2"
  by (simp add: ENABLE_VIRTUAL_TERMINAL_PROCESSING_def)

lemma vt_processing_nz: "ENABLE_VIRTUAL_TERMINAL_PROCESSING \<noteq> 0"
  by (simp add: ENABLE_VIRTUAL_TERMINAL_PROCESSING_def)

section \<open>The capability probe\<close>

lemma probe_frame:
  assumes "wf_os c"
  shows "snd (IsLightRendererSupported c) = c"
proof (cases "stderrIsConsole c")
  case False
  then show ?thesis
    by (simp add: IsLightRendererSupported_def GetConsoleMode_def buffer_of_def)
next
  case True
  from assms have wf: "wf_device (screen c)" by (simp add: wf_os_def)
  let ?f = ENABLE_VIRTUAL_TERMINAL_PROCESSING
  let ?m = "mode (screen c)"
  from set_device_add_flag [OF wf vt_processing_bit vt_processing_nz]
  consider (known) "set_device (?m OR ?f) (screen c) = (None, (screen c)\<lparr>mode := ?m OR ?f\<rparr>)"
    | (unknown) "snd (set_device (?m OR ?f) (screen c)) = screen c" "?m AND ?f \<noteq> ?f"
    by blast
  then show ?thesis
  proof cases
    case known
    have "set_device ?m ((screen c)\<lparr>mode := ?m OR ?f\<rparr>) = (None, screen c)"
      using wf by (simp add: set_device_def wf_device_def)
    with known True show ?thesis
      by (simp add: IsLightRendererSupported_def GetConsoleMode_def SetConsoleMode_def
          buffer_of_def device_of_def put_device_def Let_def)
  next
    case unknown
    obtain e d where sd: "set_device (?m OR ?f) (screen c) = (e, d)"
      by (cases "set_device (?m OR ?f) (screen c)")
    with unknown have "d = screen c" by simp
    with sd unknown True show ?thesis
      by (simp add: IsLightRendererSupported_def GetConsoleMode_def SetConsoleMode_def
          buffer_of_def device_of_def put_device_def Let_def)
  qed
qed

lemma probe_environ: "environ (snd (IsLightRendererSupported c)) = environ c"
  by (auto simp: IsLightRendererSupported_def GetConsoleMode_def SetConsoleMode_def
      buffer_of_def device_of_def put_device_def Let_def
      split: sum.splits prod.splits option.splits)

lemma wf_console0: "wf_os console0"
  by (simp add: wf_os_def wf_device_def console0_def)

lemma wf_console_legacy: "wf_os console_legacy"
  by (simp add: wf_os_def wf_device_def console_legacy_def console0_def)

lemma probe_console0: "fst (IsLightRendererSupported console0)"
  by (simp add: IsLightRendererSupported_def GetConsoleMode_def SetConsoleMode_def
      buffer_of_def device_of_def put_device_def set_device_def Let_def console0_def
      ENABLE_VIRTUAL_TERMINAL_PROCESSING_def)

lemma probe_console_legacy: "\<not> fst (IsLightRendererSupported console_legacy)"
  by (simp add: IsLightRendererSupported_def GetConsoleMode_def SetConsoleMode_def
      buffer_of_def device_of_def put_device_def set_device_def Let_def console0_def
      console_legacy_def ENABLE_VIRTUAL_TERMINAL_PROCESSING_def)

text \<open>
  C3. Whatever mode the console is in, and whether the probe reports support or not, the
  console is in the mode the probe read at entry when the probe returns: the probe leaves
  the whole console state as it found it. (When the flag did not stick the function
  returns before its last \<^verbatim>\<open>SetConsoleMode\<close>; the console then never took the flag.)
\<close>

theorem IsLightRendererSupported_leaves_mode:
  assumes "wf_os c"
  shows "GetConsoleMode (snd (IsLightRendererSupported c)) Stderr = GetConsoleMode c Stderr
       \<and> mode (screen (snd (IsLightRendererSupported c))) = mode (screen c)
       \<and> snd (IsLightRendererSupported c) = c"
  using probe_frame [OF assms] by simp

theorem IsLightRendererSupported_leaves_mode_witness:
  "wf_os console0 \<and> fst (IsLightRendererSupported console0)
   \<and> mode (screen (snd (IsLightRendererSupported console0))) = 0x3
   \<and> wf_os console_legacy \<and> \<not> fst (IsLightRendererSupported console_legacy)
   \<and> mode (screen (snd (IsLightRendererSupported console_legacy))) = 0x3"
  using IsLightRendererSupported_leaves_mode [OF wf_console0]
    IsLightRendererSupported_leaves_mode [OF wf_console_legacy]
    wf_console0 wf_console_legacy probe_console0 probe_console_legacy
  by (simp add: console0_def console_legacy_def)

text \<open>
  C8. When \<^verbatim>\<open>ConEmuPID\<close> is set to a non-empty value, or \<^verbatim>\<open>TCELL_TRUECOLOR\<close> is
  \<^verbatim>\<open>disable\<close>, \<^verbatim>\<open>DefaultTheme\<close> returns \<^verbatim>\<open>Default16\<close>, whatever the probe reports.
\<close>

theorem DefaultTheme_override:
  assumes "Getenv c ''ConEmuPID'' \<noteq> [] \<or> Getenv c ''TCELL_TRUECOLOR'' = ''disable''"
  shows "fst (DefaultTheme c) = Default16"
proof -
  have "Getenv (snd (IsLightRendererSupported c)) k = Getenv c k" for k
    by (simp add: Getenv_def probe_environ)
  with assms show ?thesis
    by (auto simp: DefaultTheme_def split: prod.splits)
qed

theorem DefaultTheme_override_witness:
  "fst (IsLightRendererSupported (console0\<lparr>environ := [''TCELL_TRUECOLOR'' \<mapsto> ''disable'']\<rparr>))
   \<and> Getenv (console0\<lparr>environ := [''TCELL_TRUECOLOR'' \<mapsto> ''disable'']\<rparr>) ''TCELL_TRUECOLOR''
       = ''disable''
   \<and> fst (DefaultTheme (console0\<lparr>environ := [''TCELL_TRUECOLOR'' \<mapsto> ''disable'']\<rparr>)) = Default16"
  using DefaultTheme_override [of "console0\<lparr>environ := [''TCELL_TRUECOLOR'' \<mapsto> ''disable'']\<rparr>"]
  by (simp add: IsLightRendererSupported_def GetConsoleMode_def SetConsoleMode_def
      buffer_of_def device_of_def put_device_def set_device_def Let_def console0_def
      ENABLE_VIRTUAL_TERMINAL_PROCESSING_def Getenv_def)

section \<open>Start-up\<close>

text \<open>
  C6. \<^verbatim>\<open>initPlatform\<close> returns an error exactly when \<^verbatim>\<open>GetConsoleMode\<close> fails on the
  handle it got for \<^verbatim>\<open>CONOUT$\<close> or on the handle it got for \<^verbatim>\<open>CONIN$\<close>, which in
  this console is exactly when one of the two cannot be opened; otherwise it returns nil.
\<close>

theorem initPlatform_error_iff:
  "(fst (initPlatform w) = None) =
     (\<not> isl (GetConsoleMode (os w) (Open (os w) ''CONOUT$'')) \<and>
      \<not> isl (GetConsoleMode (os w) (Open (os w) ''CONIN$'')))
   \<and> (fst (initPlatform w) = None) = (conoutOpens (os w) \<and> coninOpens (os w))"
  by (auto simp: initPlatform_def Let_def GetConsoleMode_def Open_def buffer_of_def
      split: sum.splits)

theorem initPlatform_error_iff_witness:
  "fst (initPlatform world0) = None
   \<and> fst (initPlatform (world0\<lparr>os := console0\<lparr>coninOpens := False\<rparr>\<rparr>)) \<noteq> None
   \<and> isl (GetConsoleMode (console0\<lparr>coninOpens := False\<rparr>)
            (Open (console0\<lparr>coninOpens := False\<rparr>) ''CONIN$''))"
  using initPlatform_error_iff [of world0]
    initPlatform_error_iff [of "world0\<lparr>os := console0\<lparr>coninOpens := False\<rparr>\<rparr>"]
  by (simp add: world0_def console0_def GetConsoleMode_def Open_def buffer_of_def)

section \<open>Size and cursor position\<close>

text \<open>
  C9. When the screen-buffer query fails, \<^verbatim>\<open>findOffset\<close> returns \<open>(-1, -1)\<close> and
  \<^verbatim>\<open>Size\<close> returns the \<^verbatim>\<open>COLUMNS\<close> value (or default) as width and \<^verbatim>\<open>maxHeightFunc\<close>
  of the \<^verbatim>\<open>LINES\<close> value (or default) as height; when it succeeds, \<^verbatim>\<open>findOffset\<close>
  returns the cursor's row and column.
\<close>

theorem geometry_fallback:
  "(GetConsoleScreenBufferInfo (os w) (outHandle (renderer w)) = Inl e \<longrightarrow>
      findOffset w = (- 1, - 1) \<and>
      Columns (Size ext w) = getEnv ext ''COLUMNS'' (defaultWidth ext) \<and>
      Lines (Size ext w) =
        maxHeightFunc (renderer w) (getEnv ext ''LINES'' (defaultHeight ext))) \<and>
   (GetConsoleScreenBufferInfo (os w) (outHandle (renderer w)) = Inr bi \<longrightarrow>
      findOffset w = (sint (Y (CursorPosition bi)), sint (X (CursorPosition bi))))"
  by (simp add: Size_def findOffset_def Let_def)

theorem geometry_fallback_witness:
  "GetConsoleScreenBufferInfo (os world0) (outHandle (renderer world0)) = Inl ERROR_INVALID_HANDLE
   \<and> findOffset world0 = (- 1, - 1)
   \<and> Columns (Size ext0 world0) = 80 \<and> Lines (Size ext0 world0) = 24
   \<and> findOffset (snd (initPlatform world0)) = (7, 4)"
  using geometry_fallback [of world0 ERROR_INVALID_HANDLE ext0]
    geometry_fallback [of "snd (initPlatform world0)" _ _
      "\<lparr>CursorPosition = \<lparr>X = 4, Y = 7\<rparr>,
        Window = \<lparr>Left = 0, Top = 0, Right = 119, Bottom = 29\<rparr>\<rparr>"]
  by (simp add: world0_def console0_def renderer0_def ext0_def GetConsoleScreenBufferInfo_def
      buffer_of_def initPlatform_def setupTerminal_def Let_def Open_def GetConsoleMode_def
      SetConsoleMode_def device_of_def put_device_def set_device_def consoleFlagsOutput_def
      consoleFlagsInput_def ENABLE_VIRTUAL_TERMINAL_PROCESSING_def ENABLE_PROCESSED_OUTPUT_def
      DISABLE_NEWLINE_AUTO_RETURN_def ENABLE_VIRTUAL_TERMINAL_INPUT_def
      ENABLE_PROCESSED_INPUT_def ENABLE_EXTENDED_FLAGS_def)

text \<open>
  C10. Whether the screen-buffer query succeeds or fails, the third and fourth fields of
  the \<^verbatim>\<open>TermSize\<close> that \<^verbatim>\<open>Size\<close> returns are 0.
\<close>

theorem Size_offsets_zero:
  "XOffset (Size ext w) = 0 \<and> YOffset (Size ext w) = 0"
  by (simp add: Size_def Let_def split: sum.split)

section \<open>Reading a key\<close>

text \<open>
  C4. With \<open>nonblock\<close> set, \<^verbatim>\<open>getch\<close> returns \<open>(0, false)\<close> when the timer fires on an
  empty channel, and the oldest byte with \<open>true\<close> when the channel holds one. Without
  \<open>nonblock\<close> it does not return while the channel is empty, returns the oldest byte
  with \<open>true\<close> when there is one, and never returns \<open>false\<close>.
\<close>

theorem getch_contract:
  "(queue w = [] \<longrightarrow> getch True w = Some ((0, False), w) \<and> getch False w = None) \<and>
   (queue w = bc # rest \<longrightarrow>
      (\<exists>w'. getch nonblock w = Some ((uint bc, True), w') \<and> queue w' = rest)) \<and>
   (getch False w = Some ((v, ok), w') \<longrightarrow> ok)"
  by (auto simp: getch_def queue_def split: option.splits list.splits if_splits)

theorem getch_contract_witness:
  "queue (snd (initPlatform world0)) = []
   \<and> getch True (snd (initPlatform world0)) = Some ((0, False), snd (initPlatform world0))
   \<and> getch False (snd (initPlatform world0)) = None
   \<and> queue (world0\<lparr>renderer := renderer0\<lparr>ttyinChannel := Some 0\<rparr>, channels := [[0x1B, 0x5B]]\<rparr>)
       = [0x1B, 0x5B]
   \<and> (\<exists>w'. getch True
              (world0\<lparr>renderer := renderer0\<lparr>ttyinChannel := Some 0\<rparr>, channels := [[0x1B, 0x5B]]\<rparr>)
            = Some ((27, True), w') \<and> queue w' = [0x5B])
   \<and> fst (the (getch False
              (world0\<lparr>renderer := renderer0\<lparr>ttyinChannel := Some 0\<rparr>, channels := [[0x1B, 0x5B]]\<rparr>)))
       = (27, True)"
proof -
  let ?w1 = "snd (initPlatform world0)"
  let ?w = "world0\<lparr>renderer := renderer0\<lparr>ttyinChannel := Some 0\<rparr>, channels := [[0x1B, 0x5B]]\<rparr>"
  let ?g = "the (getch False ?w)"
  have q1: "queue ?w1 = []" by (simp add: eval_defs)
  have q: "queue ?w = [0x1B, 0x5B]" by (simp add: eval_defs)
  have g: "getch False ?w = Some ((fst (fst ?g), snd (fst ?g)), snd ?g)"
    by (simp add: eval_defs)
  have v: "fst (fst ?g) = 27" by (simp add: eval_defs)
  from getch_contract [of ?w1] q1
  have empty: "getch True ?w1 = Some ((0, False), ?w1) \<and> getch False ?w1 = None" by blast
  from getch_contract [of ?w "0x1B" "[0x5B]" True] q
  have full: "\<exists>w'. getch True ?w = Some ((uint (0x1B :: byte), True), w') \<and> queue w' = [0x5B]"
    by blast
  from getch_contract [of ?w _ _ _ "fst (fst ?g)" "snd (fst ?g)" "snd ?g"] g
  have ok: "snd (fst ?g)" by blast
  from v ok have "fst ?g = (27, True)" by (simp add: prod_eq_iff)
  with q1 q empty full show ?thesis by simp
qed

section \<open>Facts about executions\<close>

lemmas step_defs = setupTerminal_def closePlatform_def restoreTerminal_def read_ok_def
  read_err_def acquire_def send_def reapply_def getch_def initPlatform_def silently_def

lemma run_Cons_Some:
  "run (e # es) w = Some (obs, w'') \<Longrightarrow>
   \<exists>ob w' obs'. exec e w = Some (ob, w') \<and> run es w' = Some (obs', w'') \<and> obs = ob # obs'"
  by (auto split: option.splits)

lemma run_append_Some:
  "run (es1 @ es2) w = Some (obs, w'') \<Longrightarrow>
   \<exists>obs1 w' obs2. run es1 w = Some (obs1, w') \<and> run es2 w' = Some (obs2, w'') \<and> obs = obs1 @ obs2"
proof (induction es1 arbitrary: w obs)
  case Nil
  then show ?case by simp
next
  case (Cons e es1)
  from Cons.prems obtain ob w1 obs' where
    e: "exec e w = Some (ob, w1)" and r: "run (es1 @ es2) w1 = Some (obs', w'')"
    and o: "obs = ob # obs'"
    using run_Cons_Some [of e "es1 @ es2" w obs w''] by auto
  from Cons.IH [OF r] obtain obs1 w' obs2 where
    "run es1 w1 = Some (obs1, w')" "run es2 w' = Some (obs2, w'')" "obs' = obs1 @ obs2"
    by blast
  with e o show ?case by simp
qed

section \<open>The queue is first in, first out\<close>

lemma pushed_Cons: "pushed (ob # obs) = pushed [ob] @ pushed obs"
  by (cases ob) simp_all

lemma received_Cons: "received (ob # obs) = received [ob] @ received obs"
proof (cases ob)
  case (Got v ok)
  then show ?thesis by (cases ok) simp_all
qed simp_all

lemma exec_fifo:
  assumes "exec e w = Some (ob, w')" and "e \<noteq> InitPlatform"
  shows "map uint (queue w) @ pushed [ob] = received [ob] @ map uint (queue w')"
proof (cases e)
  case (Getch nb)
  with assms show ?thesis
    by (auto simp: getch_def queue_def split: option.splits list.splits if_splits)
next
  case (Send i)
  with assms show ?thesis
    by (auto simp: send_def queue_def Let_def split: option.splits pc.splits if_splits)
qed (use assms in \<open>auto simp: step_defs queue_def Let_def split: option.splits pc.splits if_splits\<close>)

lemma run_fifo:
  assumes "run es w = Some (obs, w')" and "InitPlatform \<notin> set es"
  shows "map uint (queue w) @ pushed obs = received obs @ map uint (queue w')"
  using assms
proof (induction es arbitrary: w obs)
  case Nil
  then show ?case by simp
next
  case (Cons e es)
  from Cons.prems(1) obtain ob w1 obs1 where
    e: "exec e w = Some (ob, w1)" and r: "run es w1 = Some (obs1, w')" and o: "obs = ob # obs1"
    by (auto split: option.splits)
  from Cons.prems(2) have ne: "e \<noteq> InitPlatform" and ni: "InitPlatform \<notin> set es" by auto
  have "map uint (queue w) @ pushed obs = (map uint (queue w) @ pushed [ob]) @ pushed obs1"
    using o pushed_Cons [of ob obs1] by simp
  also have "\<dots> = received [ob] @ (map uint (queue w1) @ pushed obs1)"
    using exec_fifo [OF e ne] by simp
  also have "\<dots> = received [ob] @ received obs1 @ map uint (queue w')"
    using Cons.IH [OF r ni] by simp
  also have "\<dots> = received obs @ map uint (queue w')"
    using o received_Cons [of ob obs1] by simp
  finally show ?case .
qed

text \<open>A call of \<^verbatim>\<open>getch\<close> on a queue that holds a byte returns the oldest one.\<close>

lemma getch_takes_oldest:
  assumes "queue w = bc # rest"
  shows "\<exists>w1. getch nonblock w = Some ((uint bc, True), w1) \<and> queue w1 = rest"
  using assms
  by (auto simp: getch_def queue_def split: option.splits list.splits if_splits)

text \<open>
  As many blocking calls of \<^verbatim>\<open>getch\<close> as the queue holds bytes all return, hand the
  bytes out oldest first, and leave the queue empty.
\<close>

lemma drain:
  assumes "queue w = bs"
  shows "\<exists>w2. run (replicate (length bs) (Getch False)) w
                 = Some (map (\<lambda>b. Got (uint b) True) bs, w2) \<and> queue w2 = []"
  using assms
proof (induction bs arbitrary: w)
  case Nil
  then show ?case by simp
next
  case (Cons bc rest)
  from getch_takes_oldest [OF Cons.prems, of False] obtain w1 where
    g: "getch False w = Some ((uint bc, True), w1)" and q: "queue w1 = rest"
    by blast
  from Cons.IH [OF q] obtain w2 where
    r: "run (replicate (length rest) (Getch False)) w1
          = Some (map (\<lambda>b. Got (uint b) True) rest, w2)" and e: "queue w2 = []"
    by blast
  from g r e show ?case by simp
qed

lemma received_handed_out: "received (map (\<lambda>b. Got (uint b) True) bs) = map uint bs"
  by (induction bs) simp_all

text \<open>An event other than a call of \<^verbatim>\<open>getch\<close> hands out nothing.\<close>

lemma exec_no_getch:
  assumes "exec e w = Some (ob, w')" and "\<forall>nb. e \<noteq> Getch nb"
  shows "received [ob] = []"
  using assms
  by (cases e) (auto simp: silently_def split: option.splits prod.splits)

lemma run_no_getch:
  assumes "run es w = Some (obs, w')" and "\<forall>nb. Getch nb \<notin> set es"
  shows "received obs = []"
  using assms
proof (induction es arbitrary: w obs)
  case Nil
  then show ?case by simp
next
  case (Cons e es)
  from Cons.prems(1) obtain ob w1 obs1 where
    e: "exec e w = Some (ob, w1)" and r: "run es w1 = Some (obs1, w')" and o: "obs = ob # obs1"
    using run_Cons_Some by blast
  from Cons.prems(2) have ne: "\<forall>nb. e \<noteq> Getch nb" and ni: "\<forall>nb. Getch nb \<notin> set es"
    by auto
  from exec_no_getch [OF e ne] Cons.IH [OF r ni] o received_Cons [of ob obs1]
  show ?case by simp
qed

text \<open>
  C5. Take any execution that does not start the platform anew. The bytes that were in
  the queue followed by the bytes the readers appended are the bytes \<^verbatim>\<open>getch\<close> has
  handed out followed by the bytes still queued; and as many further calls of
  \<^verbatim>\<open>getch(false)\<close> as bytes are still queued all return and hand out exactly those
  bytes, oldest first. In particular, when the queue was empty at the start and
  \<^verbatim>\<open>getch\<close> was not called while the readers produced, as many calls of
  \<^verbatim>\<open>getch(false)\<close> as bytes were appended return exactly the appended bytes, each with
  \<open>true\<close>, in the order they were produced.
\<close>

theorem getch_fifo:
  assumes "run es w = Some (obs, w')" and "InitPlatform \<notin> set es"
  shows "map uint (queue w) @ pushed obs = received obs @ map uint (queue w')
       \<and> (\<exists>obs2 w2. run (replicate (length (queue w')) (Getch False)) w' = Some (obs2, w2)
             \<and> received obs2 = map uint (queue w') \<and> queue w2 = []
             \<and> map uint (queue w) @ pushed obs = received obs @ received obs2)
       \<and> (queue w = [] \<and> (\<forall>nb. Getch nb \<notin> set es) \<longrightarrow>
            (\<exists>obs2 w2. run (replicate (length (pushed obs)) (Getch False)) w' = Some (obs2, w2)
               \<and> obs2 = map (\<lambda>v. Got v True) (pushed obs)
               \<and> received obs2 = pushed obs \<and> queue w2 = []))"
proof -
  note acc = run_fifo [OF assms]
  from drain [of w' "queue w'"] obtain w2 where
    d: "run (replicate (length (queue w')) (Getch False)) w'
          = Some (map (\<lambda>b. Got (uint b) True) (queue w'), w2)" and e: "queue w2 = []"
    by blast
  let ?obs2 = "map (\<lambda>b. Got (uint b) True) (queue w')"
  have rec: "received ?obs2 = map uint (queue w')" by (rule received_handed_out)
  have total: "\<exists>obs2 w2. run (replicate (length (queue w')) (Getch False)) w' = Some (obs2, w2)
      \<and> received obs2 = map uint (queue w') \<and> queue w2 = []
      \<and> map uint (queue w) @ pushed obs = received obs @ received obs2"
    using d e rec acc by auto
  have fresh: "\<exists>obs2 w2. run (replicate (length (pushed obs)) (Getch False)) w' = Some (obs2, w2)
      \<and> obs2 = map (\<lambda>v. Got v True) (pushed obs)
      \<and> received obs2 = pushed obs \<and> queue w2 = []"
    if "queue w = []" and "\<forall>nb. Getch nb \<notin> set es"
  proof -
    from run_no_getch [OF assms(1) that(2)] acc that(1)
    have p: "pushed obs = map uint (queue w')" by simp
    from d e rec show ?thesis by (simp add: p comp_def)
  qed
  from acc total fresh show ?thesis by blast
qed

text \<open>
  The scenario of the spec: the reader produces \<open>0x1B\<close>, \<open>[\<close>, \<open>A\<close> with no consumer
  draining, then \<^verbatim>\<open>getch(false)\<close> is called three times.
\<close>

theorem getch_fifo_witness:
  "InitPlatform \<notin> set (deliver 0 0x1B @ deliver 0 0x5B @ deliver 0 0x41)
   \<and> Getch True \<notin> set (deliver 0 0x1B @ deliver 0 0x5B @ deliver 0 0x41)
   \<and> Getch False \<notin> set (deliver 0 0x1B @ deliver 0 0x5B @ deliver 0 0x41)
   \<and> queue (snd (initPlatform world0)) = []
   \<and> run (deliver 0 0x1B @ deliver 0 0x5B @ deliver 0 0x41) (snd (initPlatform world0)) \<noteq> None
   \<and> pushed (fst (the (run (deliver 0 0x1B @ deliver 0 0x5B @ deliver 0 0x41)
                            (snd (initPlatform world0)))))
       = [0x1B, 0x5B, 0x41]
   \<and> run [Getch False, Getch False, Getch False]
         (snd (the (run (deliver 0 0x1B @ deliver 0 0x5B @ deliver 0 0x41)
                      (snd (initPlatform world0))))) \<noteq> None
   \<and> fst (the (run [Getch False, Getch False, Getch False]
                (snd (the (run (deliver 0 0x1B @ deliver 0 0x5B @ deliver 0 0x41)
                             (snd (initPlatform world0)))))))
       = [Got 0x1B True, Got 0x5B True, Got 0x41 True]"
proof -
  let ?es = "deliver 0 0x1B @ deliver 0 0x5B @ deliver 0 0x41"
  let ?w1 = "snd (initPlatform world0)"
  let ?r = "the (run ?es ?w1)"
  let ?gs = "[Getch False, Getch False, Getch False]"
  have a: "run ?es ?w1 = Some (fst ?r, snd ?r)" by (simp add: eval_defs)
  have b: "InitPlatform \<notin> set ?es" by (simp add: deliver_def)
  have g: "\<forall>nb. Getch nb \<notin> set ?es" by (simp add: deliver_def)
  have q: "queue ?w1 = []" by (simp add: eval_defs)
  have p: "pushed (fst ?r) = [0x1B, 0x5B, 0x41]" by (simp add: eval_defs)
  have ne: "run ?es ?w1 \<noteq> None" by (simp add: eval_defs)
  from getch_fifo [OF a b] q g obtain obs2 w2 where
    d: "run (replicate (length (pushed (fst ?r))) (Getch False)) (snd ?r) = Some (obs2, w2)"
    and o: "obs2 = map (\<lambda>v. Got v True) (pushed (fst ?r))"
    by blast
  have "replicate (length (pushed (fst ?r))) (Getch False) = ?gs"
    unfolding p by (simp add: numeral_3_eq_3)
  with d have d3: "run ?gs (snd ?r) = Some (obs2, w2)" by (simp only:)
  from o have o3: "obs2 = [Got 0x1B True, Got 0x5B True, Got 0x41 True]"
    unfolding p by simp
  from d3 have n3: "run ?gs (snd ?r) \<noteq> None" by (simp only: option.distinct not_False_eq_True)
  from d3 o3 have f3: "fst (the (run ?gs (snd ?r))) = [Got 0x1B True, Got 0x5B True, Got 0x41 True]"
    by (simp only: option.sel fst_conv)
  from g have g1: "Getch True \<notin> set ?es" and g2: "Getch False \<notin> set ?es" by blast+
  from b g1 g2 q ne p n3 f3 show ?thesis by (intro conjI)
qed

section \<open>One queue for the renderer's lifetime\<close>

text \<open>
  C7, as the code has it. The channel is made by \<^verbatim>\<open>initPlatform\<close> alone: a successful
  \<^verbatim>\<open>initPlatform\<close> makes a new, empty channel and points \<open>ttyinChannel\<close> at it, while
  \<^verbatim>\<open>setupTerminal\<close> and \<^verbatim>\<open>restoreTerminal\<close> leave \<open>ttyinChannel\<close> and every channel's
  contents as they are.
\<close>

theorem queue_made_by_initPlatform_only:
  "(initPlatform w = (None, w1) \<longrightarrow>
      ttyinChannel (renderer w1) = Some (length (channels w)) \<and>
      channels w1 = channels w @ [[]] \<and> queue w1 = [])
   \<and> ttyinChannel (renderer (setupTerminal w)) = ttyinChannel (renderer w)
   \<and> channels (setupTerminal w) = channels w
   \<and> queue (setupTerminal w) = queue w
   \<and> (restoreTerminal w = Some w2 \<longrightarrow>
        ttyinChannel (renderer w2) = ttyinChannel (renderer w) \<and>
        channels w2 = channels w \<and> queue w2 = queue w)"
proof -
  have by_init: "ttyinChannel (renderer w1) = Some (length (channels w)) \<and>
      channels w1 = channels w @ [[]] \<and> queue w1 = []"
    if h: "initPlatform w = (None, w1)"
  proof -
    from h have w1: "w1 = snd (initPlatform w)" and ok: "fst (initPlatform w) = None"
      by simp_all
    from ok show ?thesis unfolding w1
      by (auto simp: initPlatform_def setupTerminal_def queue_def Let_def
          split: sum.splits option.splits)
  qed
  have by_setup: "ttyinChannel (renderer (setupTerminal w)) = ttyinChannel (renderer w)"
    "channels (setupTerminal w) = channels w"
    by (simp_all add: setupTerminal_def Let_def)
  have by_setup_q: "queue (setupTerminal w) = queue w"
    by (simp add: setupTerminal_def queue_def Let_def split: option.split)
  have by_restore: "ttyinChannel (renderer w2) = ttyinChannel (renderer w) \<and>
      channels w2 = channels w \<and> queue w2 = queue w"
    if "restoreTerminal w = Some w2"
    using that
    by (auto simp: restoreTerminal_def queue_def Let_def split: if_splits option.splits)
  from by_init by_setup by_setup_q by_restore show ?thesis by blast
qed

theorem queue_made_by_initPlatform_only_witness:
  "fst (initPlatform world0) = None
   \<and> ttyinChannel (renderer (snd (initPlatform world0))) = Some 0
   \<and> channels (snd (initPlatform world0)) = [[]]
   \<and> restoreTerminal (snd (initPlatform world0)) \<noteq> None
   \<and> ttyinChannel (renderer (the (restoreTerminal (snd (initPlatform world0))))) = Some 0
   \<and> channels (the (restoreTerminal (snd (initPlatform world0)))) = [[]]"
proof -
  let ?w1 = "snd (initPlatform world0)"
  let ?w2 = "the (restoreTerminal ?w1)"
  have a: "initPlatform world0 = (None, ?w1)" by (simp add: eval_defs)
  have b: "restoreTerminal ?w1 = Some ?w2" by (simp add: eval_defs)
  have c: "channels world0 = []" by (simp add: world0_def)
  have A: "ttyinChannel (renderer ?w1) = Some (length (channels world0))
      \<and> channels ?w1 = channels world0 @ [[]]"
    using queue_made_by_initPlatform_only [of world0 ?w1] a by blast
  have B: "ttyinChannel (renderer ?w2) = ttyinChannel (renderer ?w1)
      \<and> channels ?w2 = channels ?w1"
    using queue_made_by_initPlatform_only [of ?w1 _ ?w2] b by blast
  have f: "fst (initPlatform world0) = None" by (simp add: eval_defs)
  have ne: "restoreTerminal ?w1 \<noteq> None" by (simp add: eval_defs)
  from A B c f ne show ?thesis by simp
qed

text \<open>
  Against C7 as stated: after enter, restore and enter again the renderer still reads
  from the channel of the first cycle, no channel has been made, and the byte queued
  before the restore is what \<^verbatim>\<open>getch\<close> returns in the second cycle.
\<close>

theorem queue_reuse_counterexample:
  "ttyinChannel (renderer (snd (the (run (InitPlatform # deliver 0 0x41
                                          @ [RestoreTerminal, SetupTerminal]) world0))))
     = ttyinChannel (renderer (snd (the (run [InitPlatform] world0))))
   \<and> length (channels (snd (the (run (InitPlatform # deliver 0 0x41
                                        @ [RestoreTerminal, SetupTerminal]) world0))))
     = length (channels (snd (the (run [InitPlatform] world0))))
   \<and> fst (the (run (InitPlatform # deliver 0 0x41
                      @ [RestoreTerminal, SetupTerminal, Getch False]) world0))
     = [Silent, Silent, Silent, Pushed 0x41, Silent, Silent, Silent, Got 65 True]"
  by (simp add: eval_defs)

section \<open>Modes after \<^verbatim>\<open>restoreTerminal\<close>\<close>

lemma set_device_fields:
  "supported (snd (set_device m d)) = supported d"
  "strict (snd (set_device m d)) = strict d"
  "mode (snd (set_device m d)) =
     (if m AND NOT (supported d) = 0 then m else if strict d then mode d else m AND supported d)"
  by (simp_all add: set_device_def)

lemma SetConsoleMode_CONIN:
  "snd (SetConsoleMode CONIN m c) = c\<lparr>input := snd (set_device m (input c))\<rparr>"
  by (simp add: SetConsoleMode_def buffer_of_def device_of_def put_device_def split: prod.splits)

lemma SetConsoleMode_CONOUT:
  "snd (SetConsoleMode CONOUT m c) = c\<lparr>screen := snd (set_device m (screen c))\<rparr>"
  by (simp add: SetConsoleMode_def buffer_of_def device_of_def put_device_def split: prod.splits)

lemma holds_flag_outside:
  fixes m :: "'a::len word"
  assumes "m AND f = f" and "f AND s = 0" and "f \<noteq> 0"
  shows "m AND NOT s \<noteq> 0"
proof
  assume "m AND NOT s = 0"
  with assms(1) have "f AND NOT s = 0" by (auto simp: bit_eq_iff bit_simps)
  moreover from assms(2) have "f AND NOT s = f" by (auto simp: bit_eq_iff bit_simps)
  ultimately show False using assms(3) by simp
qed

lemma vt_input_nz: "ENABLE_VIRTUAL_TERMINAL_INPUT \<noteq> 0"
  by (simp add: ENABLE_VIRTUAL_TERMINAL_INPUT_def)

lemma vt_input_bit: "ENABLE_VIRTUAL_TERMINAL_INPUT = 2 ^ 9"
  by (simp add: ENABLE_VIRTUAL_TERMINAL_INPUT_def)

lemma consoleFlagsInput_vt: "consoleFlagsInput AND ENABLE_VIRTUAL_TERMINAL_INPUT = ENABLE_VIRTUAL_TERMINAL_INPUT"
  by (simp add: consoleFlagsInput_def ENABLE_VIRTUAL_TERMINAL_INPUT_def ENABLE_PROCESSED_INPUT_def ENABLE_EXTENDED_FLAGS_def)

lemma or_vt: "((a::u32) OR f) AND f = f"
  by (auto simp: bit_eq_iff bit_simps)

text \<open>A strict input buffer that does not know the flag keeps its mode under both requests.\<close>

lemma strict_input_keeps:
  assumes "strict d" and "ENABLE_VIRTUAL_TERMINAL_INPUT AND supported d = 0"
  shows "snd (set_device consoleFlagsInput d) = d"
    and "snd (set_device (a OR ENABLE_VIRTUAL_TERMINAL_INPUT) d) = d"
proof -
  have "consoleFlagsInput AND NOT (supported d) \<noteq> 0"
    using consoleFlagsInput_vt assms(2) vt_input_nz by (rule holds_flag_outside)
  then show "snd (set_device consoleFlagsInput d) = d"
    using assms(1) by (simp add: set_device_def)
  have "(a OR ENABLE_VIRTUAL_TERMINAL_INPUT) AND NOT (supported d) \<noteq> 0"
    using or_vt assms(2) vt_input_nz by (rule holds_flag_outside)
  then show "snd (set_device (a OR ENABLE_VIRTUAL_TERMINAL_INPUT) d) = d"
    using assms(1) by (simp add: set_device_def)
qed

lemma mode_inv_setup:
  assumes "mode_inv c w"
  shows "mode_inv c (setupTerminal w)"
proof -
  have "strict (input c) \<and> ENABLE_VIRTUAL_TERMINAL_INPUT AND supported (input c) = 0
    \<Longrightarrow> snd (set_device consoleFlagsInput (input (os w))) = input (os w)"
    using assms strict_input_keeps(1) [of "input (os w)"] by (simp add: mode_inv_def)
  with assms show ?thesis
    by (auto simp: mode_inv_def setupTerminal_def Let_def SetConsoleMode_CONIN SetConsoleMode_CONOUT
        set_device_fields)
qed

lemma mode_inv_reapply:
  assumes "mode_inv c w" and "reapply i w = Some w'"
  shows "mode_inv c w'"
proof -
  have "strict (input c) \<and> ENABLE_VIRTUAL_TERMINAL_INPUT AND supported (input c) = 0
    \<Longrightarrow> snd (set_device consoleFlagsInput (input (os w))) = input (os w)"
    using assms(1) strict_input_keeps(1) [of "input (os w)"] by (simp add: mode_inv_def)
  with assms show ?thesis
    by (auto simp: mode_inv_def reapply_def Let_def SetConsoleMode_CONIN set_device_fields
        split: if_splits)
qed

lemma mode_inv_close:
  assumes "mode_inv c w" and "wf_os c"
  shows "mode_inv c (closePlatform w)"
  using assms
  by (auto simp: mode_inv_def closePlatform_def Let_def SetConsoleMode_CONIN SetConsoleMode_CONOUT
      set_device_fields wf_os_def wf_device_def)

text \<open>What \<^verbatim>\<open>restoreTerminal\<close> leaves in the console.\<close>

lemma restore_modes:
  assumes inv: "mode_inv c w" and wf: "wf_os c" and r: "restoreTerminal w = Some w'"
  shows "mode (screen (os w')) = mode (screen c)"
    and "mode (input (os w')) =
           (mode (input c) OR ENABLE_VIRTUAL_TERMINAL_INPUT) AND supported (input c)"
    and "mode_inv c w'"
proof -
  let ?f = ENABLE_VIRTUAL_TERMINAL_INPUT
  let ?d = "input (os w)"
  let ?m = "mode (input c) OR ?f"
  from r have w': "w' = w\<lparr>counter := counter w + 1,
      os := (os w)\<lparr>input := snd (set_device ?m ?d),
                   screen := snd (set_device (mode (screen c)) (screen (os w)))\<rparr>\<rparr>"
    using inv
    by (auto simp: restoreTerminal_def mode_inv_def Let_def SetConsoleMode_CONIN
        SetConsoleMode_CONOUT split: if_splits)
  from wf inv have so: "mode (screen c) AND NOT (supported (screen (os w))) = 0"
    by (simp add: wf_os_def wf_device_def mode_inv_def)
  from w' so show "mode (screen (os w')) = mode (screen c)"
    by (simp add: set_device_fields)
  from inv have sup: "supported ?d = supported (input c)" and st: "strict ?d = strict (input c)"
    by (simp_all add: mode_inv_def)
  from wf have oi: "mode (input c) AND NOT (supported (input c)) = 0"
    by (simp add: wf_os_def wf_device_def)
  have in_mode: "mode (snd (set_device ?m ?d)) = ?m AND supported (input c)"
  proof (cases "?f AND NOT (supported (input c)) = 0")
    case True
    with oi have sub: "?m AND NOT (supported (input c)) = 0" by (simp add: subset_or_iff)
    then have "?m AND supported (input c) = ?m" by (auto simp: bit_eq_iff bit_simps)
    with sub sup show ?thesis by (simp add: set_device_fields)
  next
    case False
    with vt_input_bit have out: "?f AND supported (input c) = 0" by (rule flag_outside)
    from False have ns: "?m AND NOT (supported (input c)) \<noteq> 0" by (simp add: subset_or_iff)
    show ?thesis
    proof (cases "strict (input c)")
      case True
      with inv out have "mode ?d = mode (input c)" by (simp add: mode_inv_def)
      moreover have "?m AND supported (input c) = mode (input c)"
        using oi out by (rule masked_or_outside)
      ultimately show ?thesis using ns sup st True by (simp add: set_device_fields)
    next
      case False
      with ns sup st show ?thesis by (simp add: set_device_fields)
    qed
  qed
  with w' show "mode (input (os w')) = ?m AND supported (input c)" by simp
  have keep: "strict (input c) \<and> ?f AND supported (input c) = 0
    \<Longrightarrow> snd (set_device ?m ?d) = ?d"
    using strict_input_keeps(2) [of ?d] sup st by simp
  show "mode_inv c w'"
    using inv keep unfolding w' by (auto simp: mode_inv_def set_device_fields)
qed

lemma mode_inv_exec:
  assumes "mode_inv c w" and "wf_os c" and "exec e w = Some (ob, w')" and "e \<noteq> InitPlatform"
  shows "mode_inv c w'"
proof (cases e)
  case SetupTerminal
  with assms show ?thesis using mode_inv_setup by auto
next
  case RestoreTerminal
  with assms show ?thesis using restore_modes(3) by (auto simp: silently_def split: option.splits)
next
  case ClosePlatform
  with assms show ?thesis using mode_inv_close by auto
next
  case (Reapply i)
  with assms show ?thesis using mode_inv_reapply by (auto simp: silently_def split: option.splits)
next
  case InitPlatform
  with assms show ?thesis by simp
next
  case (Getch nb)
  with assms show ?thesis
    by (auto simp: mode_inv_def getch_def split: option.splits list.splits if_splits)
next
  case (ReadOk i b)
  with assms show ?thesis
    by (auto simp: mode_inv_def read_ok_def silently_def Let_def split: option.splits if_splits)
next
  case (ReadErr i)
  with assms show ?thesis
    by (auto simp: mode_inv_def read_err_def silently_def Let_def split: option.splits if_splits)
next
  case (Acquire i)
  with assms show ?thesis
    by (auto simp: mode_inv_def acquire_def silently_def Let_def
        split: option.splits if_splits pc.splits)
next
  case (Send i)
  with assms show ?thesis
    by (auto simp: mode_inv_def send_def Let_def split: option.splits if_splits pc.splits)
qed

lemma mode_inv_run:
  assumes "mode_inv c w" and "wf_os c" and "run es w = Some (obs, w')"
    and "InitPlatform \<notin> set es"
  shows "mode_inv c w'"
  using assms
proof (induction es arbitrary: w obs)
  case Nil
  then show ?case by simp
next
  case (Cons e es)
  from Cons.prems(3) obtain ob w1 obs' where
    e: "exec e w = Some (ob, w1)" and r: "run es w1 = Some (obs', w')"
    using run_Cons_Some by blast
  from Cons.prems(4) have ne: "e \<noteq> InitPlatform" and ni: "InitPlatform \<notin> set es" by auto
  from Cons.prems(1,2) e ne have "mode_inv c w1" by (rule mode_inv_exec)
  then show ?case using Cons.prems(2) r ni by (rule Cons.IH)
qed

lemma mode_inv_init:
  assumes "initPlatform w = (None, w1)"
  shows "mode_inv (os w) w1"
proof -
  from assms have oo: "conoutOpens (os w)" and oi: "coninOpens (os w)"
    by (auto simp: initPlatform_def Let_def GetConsoleMode_def Open_def buffer_of_def
        split: sum.splits if_splits)
  let ?w2 = "w\<lparr>renderer := (renderer w)
                 \<lparr>origStateOutput := mode (screen (os w)), outHandle := CONOUT,
                  origStateInput := mode (input (os w)), inHandle := CONIN,
                  ttyinChannel := Some (length (channels w))\<rparr>,
               channels := channels w @ [[]]\<rparr>"
  from assms oo oi have w1: "w1 = setupTerminal ?w2"
    by (simp add: initPlatform_def Let_def GetConsoleMode_def Open_def buffer_of_def
        device_of_def)
  have "mode_inv (os w) ?w2" by (simp add: mode_inv_def)
  then show ?thesis unfolding w1 by (rule mode_inv_setup)
qed

text \<open>
  C1, as the code has it. After a successful \<^verbatim>\<open>initPlatform\<close>, whatever calls of
  \<^verbatim>\<open>setupTerminal\<close>, \<^verbatim>\<open>restoreTerminal\<close>, \<^verbatim>\<open>closePlatform\<close> and \<^verbatim>\<open>getch\<close> and
  whatever steps of the readers follow, once the last \<^verbatim>\<open>restoreTerminal\<close> has returned
  the output mode is \<open>origStateOutput\<close>, the mode \<^verbatim>\<open>initPlatform\<close> found; the input mode
  is \<open>origStateInput\<close> with \<^verbatim>\<open>ENABLE_VIRTUAL_TERMINAL_INPUT\<close> switched on, as far as the
  console knows that flag: with the flag where it does, exactly \<open>origStateInput\<close> where
  it does not.
\<close>

theorem restoreTerminal_modes:
  assumes "wf_os (os w)" and "initPlatform w = (None, w1)"
    and "run (es @ [RestoreTerminal]) w1 = Some (obs, w2)" and "InitPlatform \<notin> set es"
  shows "origStateOutput (renderer w2) = mode (screen (os w))
       \<and> origStateInput (renderer w2) = mode (input (os w))
       \<and> mode (screen (os w2)) = origStateOutput (renderer w2)
       \<and> mode (input (os w2)) =
           (origStateInput (renderer w2) OR ENABLE_VIRTUAL_TERMINAL_INPUT)
             AND supported (input (os w))
       \<and> (ENABLE_VIRTUAL_TERMINAL_INPUT AND NOT (supported (input (os w))) = 0 \<longrightarrow>
            mode (input (os w2)) = origStateInput (renderer w2) OR ENABLE_VIRTUAL_TERMINAL_INPUT)
       \<and> (ENABLE_VIRTUAL_TERMINAL_INPUT AND supported (input (os w)) = 0 \<longrightarrow>
            mode (input (os w2)) = origStateInput (renderer w2))"
proof -
  let ?f = ENABLE_VIRTUAL_TERMINAL_INPUT
  let ?s = "supported (input (os w))"
  let ?oi = "mode (input (os w))"
  from assms(3) obtain obs1 wa obs2 where
    r1: "run es w1 = Some (obs1, wa)" and r2: "run [RestoreTerminal] wa = Some (obs2, w2)"
    using run_append_Some by blast
  from assms(2) have "mode_inv (os w) w1" by (rule mode_inv_init)
  then have inv: "mode_inv (os w) wa" using assms(1) r1 assms(4) by (rule mode_inv_run)
  from r2 have r: "restoreTerminal wa = Some w2"
    by (auto simp: silently_def split: option.splits)
  note m = restore_modes [OF inv assms(1) r]
  from assms(1) have oi: "?oi AND NOT ?s = 0" by (simp add: wf_os_def wf_device_def)
  have known: "(?oi OR ?f) AND ?s = ?oi OR ?f" if "?f AND NOT ?s = 0"
  proof -
    from oi that have "(?oi OR ?f) AND NOT ?s = 0" by (simp add: subset_or_iff)
    then show ?thesis by (auto simp: bit_eq_iff bit_simps)
  qed
  have unknown: "(?oi OR ?f) AND ?s = ?oi" if "?f AND ?s = 0"
    using oi that by (rule masked_or_outside)
  from m known unknown show ?thesis by (simp add: mode_inv_def)
qed

theorem restoreTerminal_modes_witness:
  "wf_os (os world0) \<and> fst (initPlatform world0) = None
   \<and> mode (screen (os (snd (the (run (deliver 0 0x41
         @ [RestoreTerminal, SetupTerminal, Getch True, RestoreTerminal])
         (snd (initPlatform world0))))))) = 0x3
   \<and> mode (input (os (snd (the (run (deliver 0 0x41
         @ [RestoreTerminal, SetupTerminal, Getch True, RestoreTerminal])
         (snd (initPlatform world0))))))) = 0x3F7
   \<and> wf_os console_legacy
   \<and> ENABLE_VIRTUAL_TERMINAL_INPUT AND supported (input console_legacy) = 0
   \<and> mode (input (os (snd (the (run [SetupTerminal, RestoreTerminal]
         (snd (initPlatform (world0\<lparr>os := console_legacy\<rparr>)))))))) = 0x1F7"
proof -
  let ?es = "deliver 0 0x41 @ [RestoreTerminal, SetupTerminal, Getch True]"
  let ?w1 = "snd (initPlatform world0)"
  let ?r = "the (run (?es @ [RestoreTerminal]) ?w1)"
  have a: "wf_os (os world0)" by (simp add: eval_defs)
  have b: "initPlatform world0 = (None, ?w1)" by (simp add: eval_defs)
  have c: "run (?es @ [RestoreTerminal]) ?w1 = Some (fst ?r, snd ?r)" by (simp add: eval_defs)
  have d: "InitPlatform \<notin> set ?es" by (simp add: deliver_def)
  have f: "fst (initPlatform world0) = None" by (simp add: eval_defs)
  have s: "supported (input (os world0)) = 0x3FF" by (simp add: eval_defs)
  have oo: "mode (screen (os world0)) = 0x3" and oi: "mode (input (os world0)) = 0x1F7"
    by (simp_all add: eval_defs)
  from restoreTerminal_modes [OF a b c d] a f s oo oi
  have modern: "mode (screen (os (snd ?r))) = 0x3 \<and> mode (input (os (snd ?r))) = 0x3F7"
    by (simp add: ENABLE_VIRTUAL_TERMINAL_INPUT_def)
  let ?l = "world0\<lparr>os := console_legacy\<rparr>"
  let ?l1 = "snd (initPlatform ?l)"
  let ?lr = "the (run ([SetupTerminal] @ [RestoreTerminal]) ?l1)"
  have la: "wf_os (os ?l)" by (simp add: eval_defs)
  have lb: "initPlatform ?l = (None, ?l1)" by (simp add: eval_defs)
  have lc: "run ([SetupTerminal] @ [RestoreTerminal]) ?l1 = Some (fst ?lr, snd ?lr)"
    by (simp add: eval_defs)
  have ld: "InitPlatform \<notin> set [SetupTerminal]" by simp
  have ls: "ENABLE_VIRTUAL_TERMINAL_INPUT AND supported (input console_legacy) = 0"
    by (simp add: eval_defs)
  have lw: "wf_os console_legacy" by (simp add: eval_defs)
  have ls': "ENABLE_VIRTUAL_TERMINAL_INPUT AND supported (input (os ?l)) = 0"
    by (simp add: eval_defs)
  have lo': "mode (input (os ?l)) = 0x1F7" by (simp add: eval_defs)
  note t = restoreTerminal_modes [OF la lb lc ld]
  from t ls' have "mode (input (os (snd ?lr))) = origStateInput (renderer (snd ?lr))"
    by blast
  also from t have "\<dots> = mode (input (os ?l))" by blast
  also note lo'
  finally have legacy: "mode (input (os (snd ?lr))) = 0x1F7" .
  from modern legacy a f ls lw show ?thesis by simp
qed

text \<open>
  Against C1 as stated: on a console whose input mode is \<open>0x1F7\<close> at start-up, the input
  mode after \<^verbatim>\<open>initPlatform\<close> and \<^verbatim>\<open>restoreTerminal\<close> is \<open>0x3F7\<close>, not the captured
  \<open>origStateInput\<close>.
\<close>

theorem restoreTerminal_input_mode_counterexample:
  "mode (input (os world0)) = 0x1F7
   \<and> origStateInput (renderer (snd (the (run [InitPlatform, RestoreTerminal] world0)))) = 0x1F7
   \<and> mode (input (os (snd (the (run [InitPlatform, RestoreTerminal] world0))))) = 0x3F7
   \<and> mode (input (os (snd (the (run [InitPlatform, RestoreTerminal] world0)))))
       \<noteq> origStateInput (renderer (snd (the (run [InitPlatform, RestoreTerminal] world0))))"
  by (simp add: eval_defs)

section \<open>Generations\<close>

lemma generation_distinct:
  assumes "k < m" and "m < 2 ^ 64"
  shows "c0 + of_nat k \<noteq> c0 + (of_nat m :: u64)"
proof
  assume "c0 + of_nat k = c0 + (of_nat m :: u64)"
  then have "(of_nat k :: u64) = of_nat m" by simp
  then have "unat (of_nat k :: u64) = unat (of_nat m :: u64)" by simp
  then have "k mod 2 ^ 64 = m mod 2 ^ 64" by (simp add: unat_of_nat)
  with assms show False by simp
qed

lemma lock_inv_exec:
  assumes "lock_inv w" and "exec e w = Some (ob, w')"
  shows "lock_inv w'"
proof (cases e)
  case InitPlatform
  with assms show ?thesis
    by (auto simp: lock_inv_def initPlatform_def setupTerminal_def Let_def nth_append
        split: sum.splits if_splits)
next
  case SetupTerminal
  with assms show ?thesis
    by (auto simp: lock_inv_def setupTerminal_def Let_def nth_append split: if_splits)
next
  case RestoreTerminal
  with assms show ?thesis
    by (auto simp: lock_inv_def restoreTerminal_def silently_def Let_def
        split: option.splits if_splits)
next
  case ClosePlatform
  with assms show ?thesis
    by (auto simp: lock_inv_def closePlatform_def Let_def)
next
  case (Getch nb)
  with assms show ?thesis
    by (auto simp: lock_inv_def getch_def split: option.splits list.splits if_splits)
next
  case (ReadOk i b)
  with assms show ?thesis
    by (auto simp: lock_inv_def read_ok_def silently_def Let_def nth_list_update
        split: option.splits if_splits)
next
  case (ReadErr i)
  with assms show ?thesis
    by (auto simp: lock_inv_def read_err_def silently_def Let_def split: option.splits if_splits)
next
  case (Acquire i)
  with assms show ?thesis
    by (auto simp: lock_inv_def acquire_def silently_def Let_def nth_list_update
        split: option.splits if_splits pc.splits)
next
  case (Send i)
  with assms show ?thesis
    by (auto simp: lock_inv_def send_def Let_def nth_list_update
        split: option.splits if_splits pc.splits)
next
  case (Reapply i)
  with assms(2) have i: "i < length (goroutines w)" "at (goroutines w ! i) = Reapplying"
    and w': "w' = w\<lparr>os := snd (SetConsoleMode (inHandle (renderer w)) consoleFlagsInput (os w)),
                     renderer := (renderer w)\<lparr>mutex := None\<rparr>,
                     goroutines := (goroutines w)[i := (goroutines w ! i)\<lparr>at := Reading\<rparr>]\<rparr>"
    by (auto simp: reapply_def silently_def Let_def split: option.splits if_splits)
  from assms(1) i have m: "mutex (renderer w) = Some i" by (simp add: lock_inv_def)
  have "\<not> holds (at (goroutines w ! j))" if "j < length (goroutines w)" "j \<noteq> i" for j
    using assms(1) m that by (auto simp: lock_inv_def)
  then show ?thesis using i(1) unfolding w' by (auto simp: lock_inv_def nth_list_update)
qed

lemma gen_inv_exec:
  assumes "gen_inv c0 n w" and "exec e w = Some (ob, w')"
  shows "gen_inv c0 (n + count_list [e] RestoreTerminal) w'"
proof (cases e)
  case RestoreTerminal
  with assms(2) have w': "counter w' = counter w + 1" "goroutines w' = goroutines w"
    by (auto simp: restoreTerminal_def silently_def Let_def split: option.splits if_splits)
  have "\<exists>k\<le>Suc n. current (goroutines w ! i) = c0 + of_nat k"
    if "i < length (goroutines w)" for i
    using assms(1) that by (auto simp: gen_inv_def intro: le_SucI)
  with assms(1) w' RestoreTerminal show ?thesis by (simp add: gen_inv_def)
next
  case InitPlatform
  with assms show ?thesis
    by (auto simp: gen_inv_def initPlatform_def setupTerminal_def Let_def nth_append
        split: sum.splits if_splits)
next
  case SetupTerminal
  with assms show ?thesis
    by (auto simp: gen_inv_def setupTerminal_def Let_def nth_append split: if_splits)
next
  case ClosePlatform
  with assms show ?thesis
    by (auto simp: gen_inv_def closePlatform_def Let_def)
next
  case (Getch nb)
  with assms show ?thesis
    by (auto simp: gen_inv_def getch_def split: option.splits list.splits if_splits)
next
  case (ReadOk i b)
  with assms show ?thesis
    by (auto simp: gen_inv_def read_ok_def silently_def Let_def nth_list_update
        split: option.splits if_splits)
next
  case (ReadErr i)
  with assms show ?thesis
    by (auto simp: gen_inv_def read_err_def silently_def Let_def split: option.splits if_splits)
next
  case (Acquire i)
  with assms show ?thesis
    by (auto simp: gen_inv_def acquire_def silently_def Let_def nth_list_update
        split: option.splits if_splits pc.splits)
next
  case (Send i)
  with assms show ?thesis
    by (auto simp: gen_inv_def send_def Let_def nth_list_update
        split: option.splits if_splits pc.splits)
next
  case (Reapply i)
  with assms show ?thesis
    by (auto simp: gen_inv_def reapply_def silently_def Let_def nth_list_update
        split: option.splits if_splits)
qed

lemma counter_exec:
  assumes "exec e w = Some (ob, w')"
  shows "counter w' = counter w + of_nat (count_list [e] RestoreTerminal)"
  using assms
  by (cases e)
    (auto simp: step_defs Let_def split: option.splits if_splits pc.splits sum.splits list.splits)

lemma lock_inv_run:
  assumes "lock_inv w" and "run es w = Some (obs, w')"
  shows "lock_inv w'"
  using assms
proof (induction es arbitrary: w obs)
  case Nil
  then show ?case by simp
next
  case (Cons e es)
  from Cons.prems(2) obtain ob w1 obs' where
    e: "exec e w = Some (ob, w1)" and r: "run es w1 = Some (obs', w')"
    using run_Cons_Some by blast
  from Cons.prems(1) e have "lock_inv w1" by (rule lock_inv_exec)
  then show ?case using r by (rule Cons.IH)
qed

lemma gen_inv_run:
  assumes "gen_inv c0 n w" and "run es w = Some (obs, w')"
  shows "gen_inv c0 (n + count_list es RestoreTerminal) w'"
  using assms
proof (induction es arbitrary: w obs n)
  case Nil
  then show ?case by simp
next
  case (Cons e es)
  from Cons.prems(2) obtain ob w1 obs' where
    e: "exec e w = Some (ob, w1)" and r: "run es w1 = Some (obs', w')"
    using run_Cons_Some by blast
  from Cons.prems(1) e have "gen_inv c0 (n + count_list [e] RestoreTerminal) w1"
    by (rule gen_inv_exec)
  from Cons.IH [OF this r] show ?case by (cases "e = RestoreTerminal") simp_all
qed

lemma stale_exec:
  assumes "stale i g w" and "exec e w = Some (ob, w')" and "g \<noteq> counter w'"
  shows "stale i g w'"
proof (cases e)
  case InitPlatform
  with assms show ?thesis
    by (auto simp: stale_def initPlatform_def setupTerminal_def Let_def nth_append
        split: sum.splits if_splits)
next
  case SetupTerminal
  with assms show ?thesis
    by (auto simp: stale_def setupTerminal_def Let_def nth_append split: if_splits)
next
  case RestoreTerminal
  with assms show ?thesis
    by (auto simp: stale_def restoreTerminal_def silently_def Let_def
        split: option.splits if_splits)
next
  case ClosePlatform
  with assms show ?thesis
    by (auto simp: stale_def closePlatform_def Let_def)
next
  case (Getch nb)
  with assms show ?thesis
    by (auto simp: stale_def getch_def split: option.splits list.splits if_splits)
next
  case (ReadOk j b)
  with assms show ?thesis
    by (auto simp: stale_def read_ok_def silently_def Let_def nth_list_update
        split: option.splits if_splits)
next
  case (ReadErr j)
  with assms show ?thesis
    by (auto simp: stale_def read_err_def silently_def Let_def split: option.splits if_splits)
next
  case (Acquire j)
  with assms show ?thesis
    by (auto simp: stale_def acquire_def silently_def Let_def nth_list_update
        split: option.splits if_splits pc.splits)
next
  case (Send j)
  with assms show ?thesis
    by (auto simp: stale_def send_def Let_def nth_list_update
        split: option.splits if_splits pc.splits)
next
  case (Reapply j)
  with assms show ?thesis
    by (auto simp: stale_def reapply_def silently_def Let_def nth_list_update
        split: option.splits if_splits)
qed

lemma stale_run:
  assumes "stale i (c0 + of_nat k) w" and "counter w = c0 + of_nat m" and "k < m"
    and "m + count_list es RestoreTerminal < 2 ^ 64" and "run es w = Some (obs, w')"
  shows "stale i (c0 + of_nat k) w'"
  using assms
proof (induction es arbitrary: w obs m)
  case Nil
  then show ?case by simp
next
  case (Cons e es)
  from Cons.prems(5) obtain ob w1 obs' where
    e: "exec e w = Some (ob, w1)" and r: "run es w1 = Some (obs', w')"
    using run_Cons_Some by blast
  let ?m = "m + count_list [e] RestoreTerminal"
  from counter_exec [OF e] Cons.prems(2) have c1: "counter w1 = c0 + of_nat ?m" by simp
  from Cons.prems(3) have km: "k < ?m" by simp
  from Cons.prems(4) have b: "?m + count_list es RestoreTerminal < 2 ^ 64"
    by (cases "e = RestoreTerminal") simp_all
  then have "?m < 2 ^ 64" by simp
  with km have "c0 + of_nat k \<noteq> c0 + (of_nat ?m :: u64)" by (rule generation_distinct)
  with c1 have "c0 + of_nat k \<noteq> counter w1" by simp
  with Cons.prems(1) e have "stale i (c0 + of_nat k) w1" by (rule stale_exec)
  then show ?case using c1 km b r by (rule Cons.IH)
qed

lemma stale_step_silent:
  assumes "stale i g w" and "actor e = Some i" and "exec e w = Some (ob, w')"
  shows "channels w' = channels w \<and> renderer w' = renderer w \<and> os w' = os w
       \<and> ob = Silent \<and> (e = Acquire i \<longrightarrow> at (goroutines w' ! i) = Exited)"
  using assms
  by (cases e)
    (auto simp: stale_def read_ok_def read_err_def acquire_def send_def reapply_def silently_def
      Let_def split: option.splits if_splits pc.splits)

text \<open>
  C2. Take any execution from a state with no reader yet, in which \<^verbatim>\<open>restoreTerminal\<close>
  returns at some point, and any reader \<open>i\<close> started before that point. Whatever happens
  afterwards, no step of reader \<open>i\<close> appends to a channel, changes what \<^verbatim>\<open>getch\<close> will
  see in the queue, or touches the console, and when it gets the mutex after a completed
  read it leaves its loop. (The counter is a
  64-bit word: the execution is taken to hold fewer than \<open>2^64\<close> calls of
  \<^verbatim>\<open>restoreTerminal\<close>.)
\<close>

theorem stale_reader_drops_byte:
  assumes start: "goroutines w = []"
    and pre: "run pre w = Some (obs1, wa)"
    and i: "i < length (goroutines wa)"
    and restore: "exec RestoreTerminal wa = Some (ob, wb)"
    and post: "run post wb = Some (obs2, wc)"
    and bound: "count_list (pre @ RestoreTerminal # post) RestoreTerminal < 2 ^ 64"
    and e: "actor e = Some i" "exec e wc = Some (ob', wd)"
  shows "channels wd = channels wc \<and> queue wd = queue wc \<and> os wd = os wc \<and> ob' = Silent
       \<and> (e = Acquire i \<longrightarrow> at (goroutines wd ! i) = Exited)"
proof -
  let ?c0 = "counter w"
  let ?n = "count_list pre RestoreTerminal"
  from start have "gen_inv ?c0 0 w" and "lock_inv w"
    by (simp_all add: gen_inv_def lock_inv_def)
  with pre have ga: "gen_inv ?c0 ?n wa" and la: "lock_inv wa"
    using gen_inv_run [of ?c0 0 w pre obs1 wa] lock_inv_run [of w pre obs1 wa] by simp_all
  from ga i obtain k where k: "k \<le> ?n" "current (goroutines wa ! i) = ?c0 + of_nat k"
    by (auto simp: gen_inv_def)
  from restore have free: "mutex (renderer wa) = None"
    and gb: "goroutines wb = goroutines wa" and cb: "counter wb = counter wa + 1"
    by (auto simp: restoreTerminal_def silently_def Let_def split: option.splits if_splits)
  from la i free have nh: "\<not> holds (at (goroutines wa ! i))"
    by (auto simp: lock_inv_def)
  from ga cb have cb': "counter wb = ?c0 + of_nat (Suc ?n)" by (simp add: gen_inv_def)
  from bound have b: "Suc ?n + count_list post RestoreTerminal < 2 ^ 64" by simp
  then have "Suc ?n < 2 ^ 64" by simp
  moreover from k(1) have lt: "k < Suc ?n" by simp
  ultimately have "?c0 + of_nat k \<noteq> ?c0 + (of_nat (Suc ?n) :: u64)"
    using generation_distinct by blast
  with cb' i gb k(2) nh have "stale i (?c0 + of_nat k) wb" by (simp add: stale_def)
  then have "stale i (?c0 + of_nat k) wc" using cb' lt b post by (rule stale_run)
  from stale_step_silent [OF this e] show ?thesis
    by (simp add: queue_def split: option.split)
qed

text \<open>
  A reader in flight at restore time: it was started by \<^verbatim>\<open>initPlatform\<close>, the terminal
  is restored and set up again, and only then does its read complete with \<open>0x41\<close>.
\<close>

theorem stale_reader_drops_byte_witness:
  "goroutines world0 = []
   \<and> run [InitPlatform, RestoreTerminal, SetupTerminal, ReadOk 0 0x41, Acquire 0] world0 \<noteq> None
   \<and> channels (snd (the (run [InitPlatform, RestoreTerminal, SetupTerminal, ReadOk 0 0x41,
                               Acquire 0] world0)))
     = channels (snd (the (run [InitPlatform, RestoreTerminal, SetupTerminal, ReadOk 0 0x41]
                            world0)))
   \<and> at (goroutines (snd (the (run [InitPlatform, RestoreTerminal, SetupTerminal,
                                    ReadOk 0 0x41, Acquire 0] world0))) ! 0) = Exited
   \<and> fst (the (run [InitPlatform, RestoreTerminal, SetupTerminal, ReadOk 0 0x41, Acquire 0,
                    Getch True] world0)) ! 5 = Got 0 False"
proof -
  let ?ra = "the (run [InitPlatform] world0)"
  let ?rb = "the (exec RestoreTerminal (snd ?ra))"
  let ?rc = "the (run [SetupTerminal, ReadOk 0 0x41] (snd ?rb))"
  let ?rd = "the (exec (Acquire 0) (snd ?rc))"
  have s: "goroutines world0 = []" by (simp add: eval_defs)
  have a: "run [InitPlatform] world0 = Some (fst ?ra, snd ?ra)" by (simp add: eval_defs)
  have i: "0 < length (goroutines (snd ?ra))" by (simp add: eval_defs)
  have b: "exec RestoreTerminal (snd ?ra) = Some (fst ?rb, snd ?rb)" by (simp add: eval_defs)
  have c: "run [SetupTerminal, ReadOk 0 0x41] (snd ?rb) = Some (fst ?rc, snd ?rc)"
    by (simp add: eval_defs)
  have n: "count_list ([InitPlatform] @ RestoreTerminal # [SetupTerminal, ReadOk 0 0x41])
             RestoreTerminal < 2 ^ 64"
    by simp
  have e: "actor (Acquire 0) = Some 0" by simp
  have d: "exec (Acquire 0) (snd ?rc) = Some (fst ?rd, snd ?rd)" by (simp add: eval_defs)
  from stale_reader_drops_byte [OF s a i b c n e d] s show ?thesis
    by (simp add: eval_defs)
qed

end
